theory Spec2Isabelle
  imports Main "HOL-Library.AList"
begin

section \<open>Python values, classes and exceptions\<close>

text \<open>
  Column types are Python classes. The seed table and \<open>convert_values\<close> name \<open>str\<close>,
  \<open>int\<close> and \<open>bool\<close>; \<open>PyObject\<close> stands for the class \<open>object\<close>, the simplest class
  that reaches the final \<open>else\<close> branch of \<open>convert_values\<close>.
\<close>

datatype pytype = PyStr | PyInt | PyBool | PyObject

text \<open>The values a cell can hold: text, an unbounded integer, a Boolean, or \<open>None\<close>.\<close>

datatype pyvalue = VStr string | VInt int | VBool bool | VNone

text \<open>
  \<open>isinstance(value, column_type)\<close>. In Python \<open>bool\<close> is a subclass of \<open>int\<close>, so a
  Boolean is an instance of \<open>int\<close>; every value is an instance of \<open>object\<close>.
\<close>

fun isinstance :: "pyvalue \<Rightarrow> pytype \<Rightarrow> bool" where
  "isinstance (VStr s) PyStr = True"
| "isinstance (VInt n) PyInt = True"
| "isinstance (VBool b) PyInt = True"
| "isinstance (VBool b) PyBool = True"
| "isinstance v PyObject = True"
| "isinstance v ty = False"

text \<open>
  One constructor for each place that raises. The first six, \<open>InvalidLiteral\<close> and
  \<open>ExceedsDigitLimit\<close> (both raised by \<open>int(value)\<close>) are \<open>ValueError\<close>s with different
  messages; \<open>RowIndexOutOfBounds\<close> is
  the \<open>IndexError\<close> of \<open>update_row\<close>, \<open>ListIndexOutOfRange\<close> the one of the built-in list
  (\<open>values[i]\<close>, \<open>del rows[i]\<close>), \<open>ValueNotInList\<close> the \<open>ValueError\<close> of \<open>list.index\<close> and
  \<open>KeyError\<close> the one of the built-in dict (\<open>row[column]\<close>, \<open>del row[column]\<close>).
\<close>

datatype error =
    ColumnExists string
  | ColumnMissing string
  | ArityMismatch
  | TypeMismatch string pytype pyvalue
  | TableExists string
  | TableMissing string
  | InvalidLiteral string
  | ExceedsDigitLimit nat
  | RowIndexOutOfBounds
  | ListIndexOutOfRange
  | ValueNotInList string
  | KeyError string



text \<open>
  A method mutates its object and then either returns or raises; the model returns the
  outcome together with the state the object is left in, so that a raise after a partial
  mutation is visible.
\<close>

datatype outcome = Returned | Raised error

section \<open>Built-in containers\<close>

text \<open>
  A \<open>dict\<close> is an association list in insertion order: \<open>d[k] = v\<close> replaces the value in
  place when the key is present and appends the pair otherwise (\<open>AList.update\<close>);
  \<open>del d[k]\<close> raises \<open>KeyError\<close> when the key is absent.
\<close>

type_synonym ('k, 'v) pydict = "('k \<times> 'v) list"

definition dict_keys :: "('k, 'v) pydict \<Rightarrow> 'k set" where
  "dict_keys d = fst ` set d"

definition dict_setitem :: "('k, 'v) pydict \<Rightarrow> 'k \<Rightarrow> 'v \<Rightarrow> ('k, 'v) pydict" where
  "dict_setitem d k v = AList.update k v d"

definition dict_of_pairs :: "('k \<times> 'v) list \<Rightarrow> ('k, 'v) pydict" where
  "dict_of_pairs ps = foldl (\<lambda>d (k, v). dict_setitem d k v) [] ps"

text \<open>\<open>xs.index(x)\<close>: the first position of \<open>x\<close>.\<close>

fun list_index :: "'a list \<Rightarrow> 'a \<Rightarrow> nat option" where
  "list_index [] x = None"
| "list_index (y # ys) x = (if y = x then Some 0 else map_option Suc (list_index ys x))"

text \<open>\<open>del xs[i]\<close> with Python's indexing: a negative index counts from the end.\<close>

definition list_delitem :: "'a list \<Rightarrow> int \<Rightarrow> error + 'a list" where
  "list_delitem xs i =
     (let n = int (length xs); j = (if i < 0 then i + n else i)
      in if 0 \<le> j \<and> j < n then Inr (take (nat j) xs @ drop (Suc (nat j)) xs)
         else Inl ListIndexOutOfRange)"

section \<open>DynamicTable\<close>

type_synonym row = "(string, pyvalue) pydict"

record DynamicTable =
  column_info :: "(string \<times> pytype) list"
  rows :: "row list"

text \<open>
  \<open>__init__\<close>. Python stores a reference to the caller's list; the model takes the list by
  value, that is, no other object mutates the schema of a table behind its back.
\<close>

definition DynamicTable_init :: "(string \<times> pytype) list \<Rightarrow> DynamicTable" where
  "DynamicTable_init ci = \<lparr>column_info = ci, rows = []\<rparr>"

definition column_names :: "DynamicTable \<Rightarrow> string list" where
  "column_names t = map fst (column_info t)"

definition add_column :: "DynamicTable \<Rightarrow> string \<Rightarrow> pytype \<Rightarrow> outcome \<times> DynamicTable" where
  "add_column t column_name column_type =
     (if column_name \<in> set (column_names t) then (Raised (ColumnExists column_name), t)
      else (Returned,
            \<lparr>column_info = column_info t @ [(column_name, column_type)],
             rows = map (\<lambda>row. dict_setitem row column_name VNone) (rows t)\<rparr>))"

text \<open>
  The loop \<open>for row in self.rows: del row[column_name]\<close>: the rows before the first one
  that lacks the key have lost it when \<open>KeyError\<close> is raised.
\<close>

fun del_key_rows :: "string \<Rightarrow> row list \<Rightarrow> outcome \<times> row list" where
  "del_key_rows k [] = (Returned, [])"
| "del_key_rows k (r # rs) =
     (if k \<in> dict_keys r
      then (case del_key_rows k rs of (oc, rs') \<Rightarrow> (oc, AList.delete k r # rs'))
      else (Raised (KeyError k), r # rs))"

definition delete_column :: "DynamicTable \<Rightarrow> string \<Rightarrow> outcome \<times> DynamicTable" where
  "delete_column t column_name =
     (if column_name \<notin> set (column_names t) then (Raised (ColumnMissing column_name), t)
      else (case list_index (column_names t) column_name of
              None \<Rightarrow> (Raised (ValueNotInList column_name), t)
            | Some index \<Rightarrow>
                (case del_key_rows column_name (rows t) of
                   (oc, rs') \<Rightarrow>
                     (oc, \<lparr>column_info = take index (column_info t) @ drop (Suc index) (column_info t),
                           rows = rs'\<rparr>))))"

text \<open>
  The validation loop shared by \<open>add_row\<close> and \<open>update_row\<close>:
  \<open>for i, (column_name, column_type) in enumerate(self.column_info)\<close>.
\<close>

fun validate_values ::
  "(string \<times> pytype) list \<Rightarrow> pyvalue list \<Rightarrow> nat \<Rightarrow> pyvalue list \<Rightarrow> error + pyvalue list" where
  "validate_values [] vals i validated = Inr validated"
| "validate_values ((column_name, column_type) # cs) vals i validated =
     (if \<not> i < length vals then Inl ListIndexOutOfRange
      else let v = vals ! i
           in if \<not> isinstance v column_type then Inl (TypeMismatch column_name column_type v)
              else validate_values cs vals (Suc i) (validated @ [v]))"

definition add_row :: "DynamicTable \<Rightarrow> pyvalue list \<Rightarrow> outcome \<times> DynamicTable" where
  "add_row t vals =
     (if length vals \<noteq> length (column_info t) then (Raised ArityMismatch, t)
      else (case validate_values (column_info t) vals 0 [] of
              Inl e \<Rightarrow> (Raised e, t)
            | Inr validated \<Rightarrow>
                (Returned, t\<lparr>rows := rows t @ [dict_of_pairs (zip (column_names t) validated)]\<rparr>)))"

definition update_row :: "DynamicTable \<Rightarrow> int \<Rightarrow> pyvalue list \<Rightarrow> outcome \<times> DynamicTable" where
  "update_row t row_index vals =
     (if row_index < 0 \<or> row_index \<ge> int (length (rows t)) then (Raised RowIndexOutOfBounds, t)
      else if length vals \<noteq> length (column_info t) then (Raised ArityMismatch, t)
      else (case validate_values (column_info t) vals 0 [] of
              Inl e \<Rightarrow> (Raised e, t)
            | Inr validated \<Rightarrow>
                (Returned,
                 t\<lparr>rows := (rows t)[nat row_index := dict_of_pairs (zip (column_names t) validated)]\<rparr>)))"

text \<open>
  The table has no method that deletes a row: \<open>DeleteRowMutation.mutate\<close> runs
  \<open>del dynamic_table.rows[row_index]\<close> itself.
\<close>

definition delete_row :: "DynamicTable \<Rightarrow> int \<Rightarrow> outcome \<times> DynamicTable" where
  "delete_row t row_index =
     (case list_delitem (rows t) row_index of
        Inl e \<Rightarrow> (Raised e, t)
      | Inr rs \<Rightarrow> (Returned, t\<lparr>rows := rs\<rparr>))"

subsection \<open>remove_duplicates\<close>

text \<open>
  Python's \<open>==\<close> on cell values, which set membership of the tuples uses (with a hash
  that agrees with it): \<open>True == 1\<close> and \<open>False == 0\<close>.
\<close>

fun py_eq :: "pyvalue \<Rightarrow> pyvalue \<Rightarrow> bool" where
  "py_eq (VStr a) (VStr b) = (a = b)"
| "py_eq (VInt a) (VInt b) = (a = b)"
| "py_eq (VBool a) (VBool b) = (a = b)"
| "py_eq (VInt a) (VBool b) = (a = (if b then 1 else 0))"
| "py_eq (VBool a) (VInt b) = ((if a then 1 else 0) = b)"
| "py_eq VNone VNone = True"
| "py_eq x y = False"

definition tuple_eq :: "pyvalue list \<Rightarrow> pyvalue list \<Rightarrow> bool" where
  "tuple_eq xs ys = list_all2 py_eq xs ys"

text \<open>\<open>tuple(row[column] for column, _ in self.column_info)\<close>\<close>

fun key_values :: "(string \<times> pytype) list \<Rightarrow> row \<Rightarrow> error + pyvalue list" where
  "key_values [] r = Inr []"
| "key_values ((column, ty) # cs) r =
     (case map_of r column of
        None \<Rightarrow> Inl (KeyError column)
      | Some v \<Rightarrow> (case key_values cs r of Inl e \<Rightarrow> Inl e | Inr vs \<Rightarrow> Inr (v # vs)))"

text \<open>The loop over \<open>self.rows\<close>; \<open>seen_rows\<close> is a set, kept here as a list.\<close>

fun dedup_loop ::
  "(string \<times> pytype) list \<Rightarrow> row list \<Rightarrow> pyvalue list list \<Rightarrow> row list \<Rightarrow> error + row list" where
  "dedup_loop ci [] seen_rows unique_rows = Inr unique_rows"
| "dedup_loop ci (r # rs) seen_rows unique_rows =
     (case key_values ci r of
        Inl e \<Rightarrow> Inl e
      | Inr kv \<Rightarrow>
          (if \<not> list_ex (tuple_eq kv) seen_rows
           then dedup_loop ci rs (kv # seen_rows) (unique_rows @ [r])
           else dedup_loop ci rs seen_rows unique_rows))"

definition remove_duplicates :: "DynamicTable \<Rightarrow> outcome \<times> DynamicTable" where
  "remove_duplicates t =
     (case dedup_loop (column_info t) (rows t) [] [] of
        Inl e \<Rightarrow> (Raised e, t)
      | Inr unique_rows \<Rightarrow> (Returned, t\<lparr>rows := unique_rows\<rparr>))"

section \<open>Database\<close>

record Database =
  tables :: "(string, DynamicTable) pydict"

definition add_table :: "Database \<Rightarrow> string \<Rightarrow> (string \<times> pytype) list \<Rightarrow> outcome \<times> Database" where
  "add_table db table_name ci =
     (if table_name \<in> dict_keys (tables db) then (Raised (TableExists table_name), db)
      else (Returned, db\<lparr>tables := dict_setitem (tables db) table_name (DynamicTable_init ci)\<rparr>))"

definition remove_table :: "Database \<Rightarrow> string \<Rightarrow> outcome \<times> Database" where
  "remove_table db table_name =
     (if table_name \<notin> dict_keys (tables db) then (Raised (TableMissing table_name), db)
      else (Returned, db\<lparr>tables := AList.delete table_name (tables db)\<rparr>))"

section \<open>Sequences of operations on one table\<close>

datatype table_op =
    AddColumn string pytype
  | DeleteColumn string
  | AddRow "pyvalue list"
  | UpdateRow int "pyvalue list"
  | DeleteRow int
  | RemoveDuplicates

fun apply_op :: "DynamicTable \<Rightarrow> table_op \<Rightarrow> outcome \<times> DynamicTable" where
  "apply_op t (AddColumn n ty) = add_column t n ty"
| "apply_op t (DeleteColumn n) = delete_column t n"
| "apply_op t (AddRow vals) = add_row t vals"
| "apply_op t (UpdateRow i vals) = update_row t i vals"
| "apply_op t (DeleteRow i) = delete_row t i"
| "apply_op t RemoveDuplicates = remove_duplicates t"

text \<open>
  The state after a sequence of calls; a caller that catches an exception goes on with
  the state the failed call left.
\<close>

fun run_ops :: "DynamicTable \<Rightarrow> table_op list \<Rightarrow> DynamicTable" where
  "run_ops t [] = t"
| "run_ops t (op # ops) = run_ops (snd (apply_op t op)) ops"

text \<open>The row-keys-match-schema invariant: \<open>set(row.keys()) == set(names)\<close> for every row.\<close>

definition row_keys_match :: "DynamicTable \<Rightarrow> bool" where
  "row_keys_match t = list_all (\<lambda>r. dict_keys r = set (column_names t)) (rows t)"

text \<open>
  The tuple of a row's values in schema-column order, for a row that holds every column
  (\<open>key_values\<close> without the \<open>KeyError\<close> branch).
\<close>

definition row_tuple :: "(string \<times> pytype) list \<Rightarrow> row \<Rightarrow> pyvalue list" where
  "row_tuple ci r = map (\<lambda>(column, ty). the (map_of r column)) ci"

text \<open>
  A representative of each class of \<open>py_eq\<close>: a Boolean is replaced by the integer it
  equals. Used in proofs only.
\<close>

fun canon :: "pyvalue \<Rightarrow> pyvalue" where
  "canon (VBool b) = VInt (if b then 1 else 0)"
| "canon v = v"

section \<open>The access layer: text conversion and row deletion\<close>

text \<open>
  \<open>value.lower()\<close>. Only the letters \<open>A\<close> to \<open>Z\<close> change here; no character outside that
  range has one of \<open>t\<close>, \<open>r\<close>, \<open>u\<close>, \<open>e\<close> as its lower case, so the comparison with
  \<open>"true"\<close> below is decided by these alone.
\<close>

definition lower_char :: "char \<Rightarrow> char" where
  "lower_char c =
     (let n = (of_char c :: nat) in if 65 \<le> n \<and> n \<le> 90 then char_of (n + 32) else c)"

definition str_lower :: "string \<Rightarrow> string" where
  "str_lower s = map lower_char s"


definition is_space :: "char \<Rightarrow> bool" where
  "is_space c = ((of_char c :: nat) = 32 \<or> (9 \<le> (of_char c :: nat) \<and> (of_char c :: nat) \<le> 13))"

definition is_digit :: "char \<Rightarrow> bool" where
  "is_digit c = (48 \<le> (of_char c :: nat) \<and> (of_char c :: nat) \<le> 57)"

definition digit_value :: "char \<Rightarrow> int" where
  "digit_value c = int ((of_char c :: nat) - 48)"

definition max_str_digits :: nat where
  "max_str_digits = 4300"

text \<open>
  The scan over digits and underscores: \<open>prev\<close> is the character before, \<open>acc\<close> the value
  read so far, \<open>digits\<close> the number of digits read so far. It stops at the first character
  that is neither and returns the rest.
\<close>

fun scan_digits :: "char \<Rightarrow> string \<Rightarrow> int \<Rightarrow> nat \<Rightarrow> (int \<times> nat \<times> string) option" where
  "scan_digits prev [] acc digits = (if prev = CHR ''_'' then None else Some (acc, digits, []))"
| "scan_digits prev (c # cs) acc digits =
     (if c = CHR ''_'' then (if prev = CHR ''_'' then None else scan_digits c cs acc digits)
      else if is_digit c then scan_digits c cs (10 * acc + digit_value c) (Suc digits)
      else if prev = CHR ''_'' then None else Some (acc, digits, c # cs))"

definition split_sign :: "string \<Rightarrow> int \<times> string" where
  "split_sign s =
     (case s of
        [] \<Rightarrow> (1, [])
      | c # r \<Rightarrow> if c = CHR ''+'' then (1, r) else if c = CHR ''-'' then (- 1, r) else (1, s))"

definition py_int :: "string \<Rightarrow> error + int" where
  "py_int s =
     (let (sign, s2) = split_sign (dropWhile is_space s)
      in case s2 of
           [] \<Rightarrow> Inl (InvalidLiteral s)
         | c # r \<Rightarrow>
             if \<not> is_digit c then Inl (InvalidLiteral s)
             else (case scan_digits c r (digit_value c) 1 of
                     None \<Rightarrow> Inl (InvalidLiteral s)
                   | Some (n, digits, rest) \<Rightarrow>
                       if digits > max_str_digits then Inl (ExceedsDigitLimit digits)
                       else if list_all is_space rest then Inr (sign * n)
                       else Inl (InvalidLiteral s)))"

text \<open>
  The body of the loop of \<open>convert_values\<close> for one text \<open>value\<close> (the elements of a
  GraphQL \<open>List(String)\<close>): \<open>str(value)\<close>, \<open>int(value)\<close>, \<open>value.lower() == "true"\<close>, or the
  value unchanged.
\<close>

definition convert_value :: "pytype \<Rightarrow> string \<Rightarrow> error + pyvalue" where
  "convert_value column_type v =
     (if column_type = PyStr then Inr (VStr v)
      else if column_type = PyInt
        then (case py_int v of Inl e \<Rightarrow> Inl e | Inr n \<Rightarrow> Inr (VInt n))
      else if column_type = PyBool then Inr (VBool (str_lower v = ''true''))
      else Inr (VStr v))"

fun convert_loop ::
  "(string \<times> pytype) list \<Rightarrow> string list \<Rightarrow> nat \<Rightarrow> pyvalue list \<Rightarrow> error + pyvalue list" where
  "convert_loop [] vals i converted_values = Inr converted_values"
| "convert_loop ((column_name, column_type) # cs) vals i converted_values =
     (if \<not> i < length vals then Inl ListIndexOutOfRange
      else (case convert_value column_type (vals ! i) of
              Inl e \<Rightarrow> Inl e
            | Inr v \<Rightarrow> convert_loop cs vals (Suc i) (converted_values @ [v])))"

definition convert_values :: "(string \<times> pytype) list \<Rightarrow> string list \<Rightarrow> error + pyvalue list" where
  "convert_values ci vals = convert_loop ci vals 0 []"

text \<open>
  \<open>DeleteRowMutation.mutate\<close> on the global database: the result is the \<open>success\<close> field.
  \<open>del rows[row_index]\<close> raises nothing but \<open>IndexError\<close>, which the handler catches.
\<close>

definition DeleteRowMutation_mutate :: "Database \<Rightarrow> string \<Rightarrow> int \<Rightarrow> bool \<times> Database" where
  "DeleteRowMutation_mutate db table_name row_index =
     (if table_name \<notin> dict_keys (tables db) then (False, db)
      else (case map_of (tables db) table_name of
              None \<Rightarrow> (False, db)
            | Some dynamic_table \<Rightarrow>
                (case delete_row dynamic_table row_index of
                   (Returned, t') \<Rightarrow> (True, db\<lparr>tables := dict_setitem (tables db) table_name t'\<rparr>)
                 | (Raised e, t') \<Rightarrow> (False, db))))"

section \<open>The texts that int accepts\<close>






section \<open>Definitions that follow the specification's words\<close>

text \<open>
  The Boolean conversion as the specification words it: true exactly when the text equals
  \<open>true\<close> case-insensitively after trimming surrounding whitespace.
\<close>

definition spec_trim :: "string \<Rightarrow> string" where
  "spec_trim s = rev (dropWhile is_space (rev (dropWhile is_space s)))"

definition spec_bool_of_text :: "string \<Rightarrow> bool" where
  "spec_bool_of_text s = (str_lower (spec_trim s) = ''true'')"

text \<open>
  The error kinds the specification gives for each operation: \<open>DuplicateColumn\<close>,
  \<open>UnknownColumn\<close>, \<open>ArityMismatch\<close>, \<open>TypeMismatch\<close> and \<open>IndexOutOfRange\<close>.
\<close>

fun specific_error :: "table_op \<Rightarrow> error \<Rightarrow> bool" where
  "specific_error (AddColumn n ty) e = (e = ColumnExists n)"
| "specific_error (DeleteColumn n) e = (e = ColumnMissing n)"
| "specific_error (AddRow vals) e =
     (case e of ArityMismatch \<Rightarrow> True | TypeMismatch c ty v \<Rightarrow> True | _ \<Rightarrow> False)"
| "specific_error (UpdateRow i vals) e =
     (case e of RowIndexOutOfBounds \<Rightarrow> True | ArityMismatch \<Rightarrow> True
              | TypeMismatch c ty v \<Rightarrow> True | _ \<Rightarrow> False)"
| "specific_error (DeleteRow i) e = (e = ListIndexOutOfRange)"
| "specific_error RemoveDuplicates e = False"



section \<open>Example data\<close>

text \<open>The schema of the seed table built at module level (\<open>table_info\<close>).\<close>

definition seed_columns :: "(string \<times> pytype) list" where
  "seed_columns = [(''Name'', PyStr), (''Age'', PyInt), (''City'', PyStr), (''IsStudent'', PyBool)]"


text \<open>
  The seed table: the four \<open>add_row\<close> calls made at module level, the third a duplicate of
  the first.
\<close>

definition alice :: "pyvalue list" where
  "alice = [VStr ''Alice'', VInt 25, VStr ''New York'', VBool False]"

definition bob :: "pyvalue list" where
  "bob = [VStr ''Bob'', VInt 30, VStr ''San Francisco'', VBool True]"

definition charlie :: "pyvalue list" where
  "charlie = [VStr ''Charlie'', VInt 22, VStr ''Los Angeles'', VBool True]"

definition seed_table :: DynamicTable where
  "seed_table =
     run_ops (DynamicTable_init seed_columns) [AddRow alice, AddRow bob, AddRow alice, AddRow charlie]"

text \<open>A schema that names one column twice, and the table after one \<open>add_row\<close>.\<close>

definition twice_age :: "(string \<times> pytype) list" where
  "twice_age = [(''Age'', PyInt), (''Age'', PyInt)]"

definition twice_age_table :: DynamicTable where
  "twice_age_table = \<lparr>column_info = twice_age, rows = [[(''Age'', VInt 2)]]\<rparr>"

text \<open>
  Two tables reached from that schema: one whose rows lack the key the schema names, and
  one with a row that holds a key the schema does not name.
\<close>

definition keyless_rows_table :: DynamicTable where
  "keyless_rows_table = \<lparr>column_info = [(''Age'', PyInt)], rows = [[], []]\<rparr>"

definition orphan_key_table :: DynamicTable where
  "orphan_key_table = \<lparr>column_info = [], rows = [[], [(''Age'', VInt 5)]]\<rparr>"

section \<open>Properties\<close>

subsection \<open>Dictionaries and the validation loop\<close>

lemma update_fresh: "k \<notin> fst ` set d \<Longrightarrow> AList.update k v d = d @ [(k, v)]"
  by (induction d) auto

lemma foldl_setitem_keys:
  "dict_keys (foldl (\<lambda>d (k, v). dict_setitem d k v) d ps) = dict_keys d \<union> fst ` set ps"
proof (induction ps arbitrary: d)
  case Nil
  then show ?case by simp
next
  case (Cons p ps)
  obtain k v where p: "p = (k, v)" by (cases p)
  have "dict_keys (dict_setitem d k v) = insert k (dict_keys d)"
    by (simp add: dict_setitem_def dict_keys_def dom_update)
  then show ?case using Cons.IH[of "dict_setitem d k v"] by (simp add: p)
qed

lemma dict_of_pairs_keys: "dict_keys (dict_of_pairs ps) = fst ` set ps"
  by (simp add: dict_of_pairs_def foldl_setitem_keys) (simp add: dict_keys_def)

lemma foldl_setitem_distinct:
  "distinct (map fst (d @ ps)) \<Longrightarrow> foldl (\<lambda>d (k, v). dict_setitem d k v) d ps = d @ ps"
proof (induction ps arbitrary: d)
  case Nil
  then show ?case by simp
next
  case (Cons p ps)
  obtain k v where p: "p = (k, v)" by (cases p)
  from Cons.prems have fresh: "k \<notin> fst ` set d" by (auto simp: p)
  have "distinct (map fst ((d @ [(k, v)]) @ ps))" using Cons.prems by (simp add: p)
  from Cons.IH[OF this] show ?case by (simp add: p dict_setitem_def update_fresh[OF fresh])
qed

lemma dict_of_pairs_distinct: "distinct (map fst ps) \<Longrightarrow> dict_of_pairs ps = ps"
  using foldl_setitem_distinct[of "[]" ps] by (simp add: dict_of_pairs_def)

lemma validate_values_ok:
  "i + length cs \<le> length vals \<Longrightarrow>
   (\<forall>j < length cs. isinstance (vals ! (i + j)) (snd (cs ! j))) \<Longrightarrow>
   validate_values cs vals i acc = Inr (acc @ take (length cs) (drop i vals))"
proof (induction cs arbitrary: i acc)
  case Nil
  then show ?case by simp
next
  case (Cons c cs)
  obtain n ty where c: "c = (n, ty)" by (cases c)
  from Cons.prems have i: "i < length vals" by simp
  from Cons.prems(2)[rule_format, of 0] have h0: "isinstance (vals ! i) ty" by (simp add: c)
  have rest: "\<forall>j < length cs. isinstance (vals ! (Suc i + j)) (snd (cs ! j))"
    using Cons.prems(2) by (metis Suc_less_eq add_Suc_shift length_Cons nth_Cons_Suc)
  have "validate_values cs vals (Suc i) (acc @ [vals ! i])
        = Inr ((acc @ [vals ! i]) @ take (length cs) (drop (Suc i) vals))"
    using Cons.prems(1) by (intro Cons.IH rest) simp
  moreover have "take (Suc (length cs)) (drop i vals) = vals ! i # take (length cs) (drop (Suc i) vals)"
    using i by (simp add: Cons_nth_drop_Suc[symmetric])
  ultimately show ?case using i h0 by (simp add: c)
qed

lemma validate_values_fail:
  "i + length cs \<le> length vals \<Longrightarrow> k < length cs \<Longrightarrow>
   \<not> isinstance (vals ! (i + k)) (snd (cs ! k)) \<Longrightarrow>
   (\<forall>j < k. isinstance (vals ! (i + j)) (snd (cs ! j))) \<Longrightarrow>
   validate_values cs vals i acc = Inl (TypeMismatch (fst (cs ! k)) (snd (cs ! k)) (vals ! (i + k)))"
proof (induction cs arbitrary: i acc k)
  case Nil
  then show ?case by simp
next
  case (Cons c cs)
  obtain n ty where c: "c = (n, ty)" by (cases c)
  from Cons.prems have i: "i < length vals" by simp
  show ?case
  proof (cases k)
    case 0
    with Cons.prems i show ?thesis by (simp add: c)
  next
    case (Suc k')
    from Cons.prems(4)[rule_format, of 0] have h0: "isinstance (vals ! i) ty" by (simp add: c Suc)
    have rest: "\<forall>j < k'. isinstance (vals ! (Suc i + j)) (snd (cs ! j))"
      using Cons.prems(4) Suc by (metis Suc_less_eq add_Suc_shift nth_Cons_Suc)
    have "validate_values cs vals (Suc i) (acc @ [vals ! i])
          = Inl (TypeMismatch (fst (cs ! k')) (snd (cs ! k')) (vals ! (Suc i + k')))"
      using Cons.prems Suc by (intro Cons.IH rest) simp_all
    then show ?thesis using i h0 by (simp add: c Suc)
  qed
qed

lemma validate_values_dichotomy:
  "i + length cs \<le> length vals \<Longrightarrow>
   (\<forall>j < length cs. isinstance (vals ! (i + j)) (snd (cs ! j))) \<or>
   (\<exists>k < length cs. \<not> isinstance (vals ! (i + k)) (snd (cs ! k)) \<and>
        (\<forall>j < k. isinstance (vals ! (i + j)) (snd (cs ! j))))"
proof -
  let ?P = "\<lambda>k. k < length cs \<and> \<not> isinstance (vals ! (i + k)) (snd (cs ! k))"
  show ?thesis
  proof (cases "\<exists>k. ?P k")
    case True
    then obtain k where k: "?P k" ..
    define m where "m = (LEAST k. ?P k)"
    have Pm: "?P m" unfolding m_def using k by (rule LeastI)
    have "\<forall>j < m. isinstance (vals ! (i + j)) (snd (cs ! j))"
    proof (intro allI impI)
      fix j assume "j < m"
      then have "\<not> ?P j" unfolding m_def by (rule not_less_Least)
      moreover have "j < length cs" using \<open>j < m\<close> Pm by simp
      ultimately show "isinstance (vals ! (i + j)) (snd (cs ! j))" by simp
    qed
    with Pm show ?thesis by blast
  next
    case False
    then show ?thesis by blast
  qed
qed

subsection \<open>add_row\<close>

lemma add_row_raised_unchanged: "fst (add_row t vals) \<noteq> Returned \<Longrightarrow> snd (add_row t vals) = t"
  by (auto simp: add_row_def split: sum.splits if_splits)

text \<open>
  Claim C2. \<open>add_row\<close> raises the arity error when the number of values differs from the
  number of columns; with the right number of values it raises the type error of the first
  position whose value is not an instance of the column's class; whenever it raises, the
  table is left as it was; when every position passes, one row is appended, built from the
  column names and the values in schema order: its key set is the set of column names, and
  it is the list of (name, value) pairs itself when the names are distinct.
\<close>

theorem add_row_all_or_nothing:
  fixes t :: DynamicTable and vals :: "pyvalue list"
  defines "ci \<equiv> column_info t"
  shows "(length vals \<noteq> length ci \<longrightarrow> add_row t vals = (Raised ArityMismatch, t))
    \<and> (length vals = length ci \<longrightarrow>
         (\<forall>k < length ci.
            \<not> isinstance (vals ! k) (snd (ci ! k)) \<longrightarrow>
            (\<forall>j < k. isinstance (vals ! j) (snd (ci ! j))) \<longrightarrow>
            add_row t vals = (Raised (TypeMismatch (fst (ci ! k)) (snd (ci ! k)) (vals ! k)), t)))
    \<and> (length vals = length ci \<longrightarrow>
         (\<forall>k < length ci. isinstance (vals ! k) (snd (ci ! k))) \<longrightarrow>
         add_row t vals = (Returned, t\<lparr>rows := rows t @ [dict_of_pairs (zip (column_names t) vals)]\<rparr>)
         \<and> dict_keys (dict_of_pairs (zip (column_names t) vals)) = set (column_names t)
         \<and> (distinct (column_names t) \<longrightarrow>
              dict_of_pairs (zip (column_names t) vals) = zip (column_names t) vals))
    \<and> (fst (add_row t vals) \<noteq> Returned \<longrightarrow> snd (add_row t vals) = t)"
proof (intro conjI impI allI)
  assume "length vals \<noteq> length ci"
  then show "add_row t vals = (Raised ArityMismatch, t)" by (simp add: add_row_def ci_def)
next
  fix k
  assume len: "length vals = length ci" and k: "k < length ci"
    and bad: "\<not> isinstance (vals ! k) (snd (ci ! k))"
    and good: "\<forall>j < k. isinstance (vals ! j) (snd (ci ! j))"
  have "validate_values ci vals 0 [] = Inl (TypeMismatch (fst (ci ! k)) (snd (ci ! k)) (vals ! (0 + k)))"
    using len k bad good by (intro validate_values_fail) simp_all
  then show "add_row t vals = (Raised (TypeMismatch (fst (ci ! k)) (snd (ci ! k)) (vals ! k)), t)"
    using len by (simp add: add_row_def ci_def)
next
  assume len: "length vals = length ci"
    and good: "\<forall>k < length ci. isinstance (vals ! k) (snd (ci ! k))"
  have "validate_values ci vals 0 [] = Inr ([] @ take (length ci) (drop 0 vals))"
    using len good by (intro validate_values_ok) simp_all
  then show "add_row t vals = (Returned, t\<lparr>rows := rows t @ [dict_of_pairs (zip (column_names t) vals)]\<rparr>)"
    using len by (simp add: add_row_def ci_def)
  show "dict_keys (dict_of_pairs (zip (column_names t) vals)) = set (column_names t)"
  proof -
    have "map fst (zip (column_names t) vals) = column_names t"
      using len by (simp add: column_names_def ci_def)
    then have "fst ` set (zip (column_names t) vals) = set (column_names t)"
      by (metis set_map)
    then show ?thesis by (simp add: dict_of_pairs_keys)
  qed
  assume "distinct (column_names t)"
  then show "dict_of_pairs (zip (column_names t) vals) = zip (column_names t) vals"
    using len by (intro dict_of_pairs_distinct) (simp add: column_names_def ci_def)
next
  assume "fst (add_row t vals) \<noteq> Returned"
  then show "snd (add_row t vals) = t" by (rule add_row_raised_unchanged)
qed

lemma all_less_4: "(\<forall>k < (4::nat). P k) \<longleftrightarrow> P 0 \<and> P 1 \<and> P 2 \<and> P 3"
proof -
  have "\<And>k::nat. k < 4 \<longleftrightarrow> k = 0 \<or> k = 1 \<or> k = 2 \<or> k = 3" by arith
  then show ?thesis by auto
qed

text \<open>The three cases of C2 on the schema of the seed table.\<close>

theorem add_row_all_or_nothing_witness:
  "add_row (DynamicTable_init seed_columns) [VStr ''Alice'']
     = (Raised ArityMismatch, DynamicTable_init seed_columns)
   \<and> add_row (DynamicTable_init seed_columns) [VStr ''Alice'', VStr ''25'', VStr ''NYC'', VBool False]
     = (Raised (TypeMismatch ''Age'' PyInt (VStr ''25'')), DynamicTable_init seed_columns)
   \<and> add_row (DynamicTable_init seed_columns) [VStr ''Alice'', VInt 25, VStr ''NYC'', VBool False]
     = (Returned, \<lparr>column_info = seed_columns,
                   rows = [[(''Name'', VStr ''Alice''), (''Age'', VInt 25), (''City'', VStr ''NYC''),
                            (''IsStudent'', VBool False)]]\<rparr>)"
proof (intro conjI)
  let ?t = "DynamicTable_init seed_columns"
  have ci: "column_info ?t = seed_columns" by (simp add: DynamicTable_init_def)
  have len: "length seed_columns = 4" by (simp add: seed_columns_def)
  have "length [VStr ''Alice''] \<noteq> length (column_info ?t)" by (simp add: ci len)
  then show "add_row ?t [VStr ''Alice''] = (Raised ArityMismatch, ?t)"
    by (rule add_row_all_or_nothing[THEN conjunct1, rule_format])
  let ?bad = "[VStr ''Alice'', VStr ''25'', VStr ''NYC'', VBool False]"
  have b: "length ?bad = length (column_info ?t)" "1 < length (column_info ?t)"
      "\<not> isinstance (?bad ! 1) (snd (column_info ?t ! 1))"
      "\<And>j. j < 1 \<Longrightarrow> isinstance (?bad ! j) (snd (column_info ?t ! j))"
    by (simp_all add: ci len) (simp_all add: seed_columns_def)
  have "add_row ?t ?bad
      = (Raised (TypeMismatch (fst (column_info ?t ! 1)) (snd (column_info ?t ! 1)) (?bad ! 1)), ?t)"
    by (rule add_row_all_or_nothing[THEN conjunct2, THEN conjunct1, rule_format, OF b])
  then show "add_row ?t ?bad = (Raised (TypeMismatch ''Age'' PyInt (VStr ''25'')), ?t)"
    by (simp add: ci) (simp add: seed_columns_def)
  let ?good = "[VStr ''Alice'', VInt 25, VStr ''NYC'', VBool False]"
  have g: "length ?good = length (column_info ?t)"
      "\<forall>k < length (column_info ?t). isinstance (?good ! k) (snd (column_info ?t ! k))"
    by (simp_all add: ci len all_less_4) (simp_all add: seed_columns_def)
  have d: "distinct (column_names ?t)"
    by (simp add: column_names_def ci) (simp add: seed_columns_def)
  have "add_row ?t ?good
          = (Returned, ?t\<lparr>rows := rows ?t @ [dict_of_pairs (zip (column_names ?t) ?good)]\<rparr>)
        \<and> dict_of_pairs (zip (column_names ?t) ?good) = zip (column_names ?t) ?good"
    using add_row_all_or_nothing[of ?good ?t] g d by blast
  then show "add_row ?t ?good
     = (Returned, \<lparr>column_info = seed_columns,
                   rows = [[(''Name'', VStr ''Alice''), (''Age'', VInt 25), (''City'', VStr ''NYC''),
                            (''IsStudent'', VBool False)]]\<rparr>)"
    by (simp add: DynamicTable_init_def column_names_def) (simp add: seed_columns_def)
qed

subsection \<open>The row-keys-match-schema invariant\<close>

lemma dict_keys_setitem: "dict_keys (dict_setitem d k v) = insert k (dict_keys d)"
  by (simp add: dict_setitem_def dict_keys_def dom_update)

lemma dict_keys_delete: "dict_keys (AList.delete k d) = dict_keys d - {k}"
  by (auto simp: dict_keys_def AList.delete_eq)

lemma list_index_Some: "x \<in> set xs \<Longrightarrow> \<exists>i. list_index xs x = Some i \<and> i < length xs \<and> xs ! i = x \<and> x \<notin> set (take i xs)"
proof (induction xs)
  case Nil
  then show ?case by simp
next
  case (Cons y ys)
  show ?case
  proof (cases "y = x")
    case True
    then show ?thesis by simp
  next
    case False
    with Cons.prems have "x \<in> set ys" by simp
    from Cons.IH[OF this] obtain i where "list_index ys x = Some i" "i < length ys" "ys ! i = x" "x \<notin> set (take i ys)"
      by blast
    with False show ?thesis by simp
  qed
qed

lemma del_key_rows_all:
  "\<forall>r \<in> set rs. k \<in> dict_keys r \<Longrightarrow> del_key_rows k rs = (Returned, map (AList.delete k) rs)"
  by (induction rs) auto

lemma set_remove_nth_distinct:
  "distinct xs \<Longrightarrow> i < length xs \<Longrightarrow> set (take i xs @ drop (Suc i) xs) = set xs - {xs ! i}"
proof -
  assume d: "distinct xs" and i: "i < length xs"
  have xs: "xs = take i xs @ xs ! i # drop (Suc i) xs" using i by (rule id_take_nth_drop)
  then have "distinct (take i xs @ xs ! i # drop (Suc i) xs)" using d by simp
  then have "xs ! i \<notin> set (take i xs)" "xs ! i \<notin> set (drop (Suc i) xs)" by auto
  moreover have "set xs = set (take i xs) \<union> {xs ! i} \<union> set (drop (Suc i) xs)"
    by (subst xs) auto
  ultimately show ?thesis by auto
qed

lemma distinct_remove_nth: "distinct xs \<Longrightarrow> distinct (take i xs @ drop (Suc i) xs)"
  by (metis distinct_take distinct_drop distinct_append set_take_disj_set_drop_if_distinct Suc_n_not_le_n nat_le_linear le_SucI)

lemma names_remove_nth:
  "map fst (take i ci @ drop (Suc i) ci) = take i (map fst ci) @ drop (Suc i) (map fst ci)"
  by (simp add: take_map drop_map)

lemma add_column_wf:
  assumes "distinct (column_names t)" "row_keys_match t"
  shows "distinct (column_names (snd (add_column t n ty))) \<and> row_keys_match (snd (add_column t n ty))"
  using assms by (auto simp: add_column_def column_names_def row_keys_match_def list_all_iff dict_keys_setitem)

lemma delete_column_ok:
  assumes d: "distinct (column_names t)" and m: "row_keys_match t" and n: "n \<in> set (column_names t)"
  shows "\<exists>i. list_index (column_names t) n = Some i \<and> i < length (column_info t) \<and> column_names t ! i = n \<and>
     delete_column t n = (Returned, \<lparr>column_info = take i (column_info t) @ drop (Suc i) (column_info t),
                                    rows = map (AList.delete n) (rows t)\<rparr>)"
proof -
  from list_index_Some[OF n] obtain i where i: "list_index (column_names t) n = Some i"
    "i < length (column_names t)" "column_names t ! i = n" by blast
  have "\<forall>r \<in> set (rows t). n \<in> dict_keys r" using m n by (simp add: row_keys_match_def list_all_iff)
  then have "del_key_rows n (rows t) = (Returned, map (AList.delete n) (rows t))" by (rule del_key_rows_all)
  with i n show ?thesis by (simp add: delete_column_def column_names_def)
qed

lemma delete_column_wf:
  assumes d: "distinct (column_names t)" and m: "row_keys_match t"
  shows "distinct (column_names (snd (delete_column t n))) \<and> row_keys_match (snd (delete_column t n))"
proof (cases "n \<in> set (column_names t)")
  case False
  then show ?thesis using assms by (simp add: delete_column_def)
next
  case True
  from delete_column_ok[OF d m True] obtain i where i: "i < length (column_info t)" "column_names t ! i = n"
    and eq: "delete_column t n = (Returned, \<lparr>column_info = take i (column_info t) @ drop (Suc i) (column_info t),
                                    rows = map (AList.delete n) (rows t)\<rparr>)" by blast
  let ?t' = "snd (delete_column t n)"
  have names': "column_names ?t' = take i (column_names t) @ drop (Suc i) (column_names t)"
    by (simp add: eq column_names_def take_map drop_map)
  have "distinct (column_names ?t')" unfolding names' using d by (rule distinct_remove_nth)
  moreover have "set (column_names ?t') = set (column_names t) - {n}"
    unfolding names' using set_remove_nth_distinct[OF d, of i] i by (simp add: column_names_def)
  then have "row_keys_match ?t'"
    using m by (simp add: row_keys_match_def list_all_iff eq dict_keys_delete)
  ultimately show ?thesis by simp
qed

lemma validate_values_length:
  "validate_values cs vals i acc = Inr v \<Longrightarrow> length v = length acc + length cs"
proof (induction cs arbitrary: i acc)
  case Nil
  then show ?case by simp
next
  case (Cons c cs)
  obtain n ty where c: "c = (n, ty)" by (cases c)
  from Cons.prems have "validate_values cs vals (Suc i) (acc @ [vals ! i]) = Inr v"
    by (simp add: c Let_def split: if_splits)
  from Cons.IH[OF this] show ?case by simp
qed

lemma new_row_keys:
  assumes "validate_values (column_info t) vals 0 [] = Inr v"
  shows "dict_keys (dict_of_pairs (zip (column_names t) v)) = set (column_names t)"
proof -
  have "length v = length (column_names t)"
    using validate_values_length[OF assms] by (simp add: column_names_def)
  then have "map fst (zip (column_names t) v) = column_names t" by simp
  then have "fst ` set (zip (column_names t) v) = set (column_names t)" by (metis set_map)
  then show ?thesis by (simp add: dict_of_pairs_keys)
qed

lemma add_row_column_info: "column_info (snd (add_row t vals)) = column_info t"
  by (simp add: add_row_def split: sum.splits)

lemma update_row_column_info: "column_info (snd (update_row t i vals)) = column_info t"
  by (simp add: update_row_def split: sum.splits)

lemma delete_row_column_info: "column_info (snd (delete_row t i)) = column_info t"
  by (simp add: delete_row_def split: sum.splits)

lemma remove_duplicates_column_info: "column_info (snd (remove_duplicates t)) = column_info t"
  by (simp add: remove_duplicates_def split: sum.splits)

lemma column_names_rows_update: "column_names (t\<lparr>rows := rs\<rparr>) = column_names t"
  by (simp add: column_names_def)

lemma row_keys_match_rows_update:
  "row_keys_match (t\<lparr>rows := rs\<rparr>) \<longleftrightarrow> (\<forall>r \<in> set rs. dict_keys r = set (column_names t))"
  by (simp add: row_keys_match_def list_all_iff column_names_rows_update)

lemma row_keys_matchD: "row_keys_match t \<Longrightarrow> r \<in> set (rows t) \<Longrightarrow> dict_keys r = set (column_names t)"
  by (simp add: row_keys_match_def list_all_iff)

lemma add_row_keys: "row_keys_match t \<Longrightarrow> row_keys_match (snd (add_row t vals))"
  by (auto simp: add_row_def row_keys_match_rows_update new_row_keys split: sum.splits
      dest: row_keys_matchD)

lemma update_row_keys: "row_keys_match t \<Longrightarrow> row_keys_match (snd (update_row t i vals))"
proof -
  assume m: "row_keys_match t"
  have "\<And>v r. validate_values (column_info t) vals 0 [] = Inr v \<Longrightarrow>
      r \<in> set ((rows t)[nat i := dict_of_pairs (zip (column_names t) v)]) \<Longrightarrow>
      dict_keys r = set (column_names t)"
    using m by (metis insertE new_row_keys row_keys_matchD set_update_subset_insert subsetD)
  then show ?thesis using m
    by (auto simp: update_row_def row_keys_match_rows_update split: sum.splits)
qed

lemma list_delitem_subset: "list_delitem xs i = Inr ys \<Longrightarrow> set ys \<subseteq> set xs"
  by (auto simp: list_delitem_def Let_def split: if_splits dest: in_set_takeD in_set_dropD)

lemma delete_row_keys: "row_keys_match t \<Longrightarrow> row_keys_match (snd (delete_row t i))"
  by (auto simp: delete_row_def row_keys_match_rows_update split: sum.splits
      dest: row_keys_matchD list_delitem_subset)

lemma dedup_loop_subset:
  "dedup_loop ci rs seen u = Inr res \<Longrightarrow> set res \<subseteq> set u \<union> set rs"
proof (induction rs arbitrary: seen u)
  case Nil
  then show ?case by simp
next
  case (Cons r rs)
  from Cons.prems obtain kv where kv: "key_values ci r = Inr kv"
    by (cases "key_values ci r") simp_all
  show ?case
  proof (cases "list_ex (tuple_eq kv) seen")
    case True
    with Cons.prems kv have "dedup_loop ci rs seen u = Inr res" by simp
    from Cons.IH[OF this] show ?thesis by auto
  next
    case False
    with Cons.prems kv have "dedup_loop ci rs (kv # seen) (u @ [r]) = Inr res" by simp
    from Cons.IH[OF this] show ?thesis by auto
  qed
qed

lemma remove_duplicates_keys: "row_keys_match t \<Longrightarrow> row_keys_match (snd (remove_duplicates t))"
proof -
  assume m: "row_keys_match t"
  have "\<And>res r. dedup_loop (column_info t) (rows t) [] [] = Inr res \<Longrightarrow> r \<in> set res \<Longrightarrow>
      dict_keys r = set (column_names t)"
  proof -
    fix res r
    assume "dedup_loop (column_info t) (rows t) [] [] = Inr res" and r: "r \<in> set res"
    then have "set res \<subseteq> set (rows t)" using dedup_loop_subset by fastforce
    with r have "r \<in> set (rows t)" by blast
    with m show "dict_keys r = set (column_names t)" by (rule row_keys_matchD)
  qed
  then show ?thesis using m
    by (auto simp: remove_duplicates_def row_keys_match_rows_update split: sum.splits)
qed

lemma apply_op_wf:
  assumes "distinct (column_names t)" "row_keys_match t"
  shows "distinct (column_names (snd (apply_op t op))) \<and> row_keys_match (snd (apply_op t op))"
proof (cases op)
  case (AddColumn n ty)
  then show ?thesis using add_column_wf[OF assms] by simp
next
  case (DeleteColumn n)
  then show ?thesis using delete_column_wf[OF assms] by simp
next
  case (AddRow vals)
  then show ?thesis using assms add_row_keys[of t vals]
    by (simp add: column_names_def add_row_column_info)
next
  case (UpdateRow i vals)
  then show ?thesis using assms update_row_keys[of t i vals]
    by (simp add: column_names_def update_row_column_info)
next
  case (DeleteRow i)
  then show ?thesis using assms delete_row_keys[of t i]
    by (simp add: column_names_def delete_row_column_info)
next
  case RemoveDuplicates
  then show ?thesis using assms remove_duplicates_keys[of t]
    by (simp add: column_names_def remove_duplicates_column_info)
qed

text \<open>
  Claim C1, amended. On a table whose column names are pairwise distinct and whose rows
  all have exactly the column names as keys (a table just built from distinct names is one),
  every sequence of \<open>add_column\<close>, \<open>delete_column\<close>, \<open>add_row\<close>, \<open>update_row\<close>, row
  deletion and \<open>remove_duplicates\<close> calls, failed calls included, leaves every row with
  exactly the current column names as keys, and the names distinct. Every prefix of a
  sequence is a sequence, so this holds after each call.
\<close>

theorem row_keys_match_invariant:
  "distinct (column_names t) \<Longrightarrow> row_keys_match t \<Longrightarrow>
   row_keys_match (run_ops t ops) \<and> distinct (column_names (run_ops t ops))"
proof (induction ops arbitrary: t)
  case Nil
  then show ?case by simp
next
  case (Cons op ops)
  from apply_op_wf[OF Cons.prems, of op] Cons.IH[of "snd (apply_op t op)"]
  show ?case by simp
qed

text \<open>C1 on the seed schema, with a column added, a column removed and a row deleted.\<close>

theorem row_keys_match_invariant_witness:
  "row_keys_match
     (run_ops (DynamicTable_init seed_columns)
        [AddRow [VStr ''Alice'', VInt 25, VStr ''NYC'', VBool False],
         AddColumn ''Score'' PyInt, DeleteColumn ''City'', DeleteRow 0])"
proof -
  have "distinct (column_names (DynamicTable_init seed_columns))"
    by (simp add: column_names_def DynamicTable_init_def seed_columns_def)
  moreover have "row_keys_match (DynamicTable_init seed_columns)"
    by (simp add: row_keys_match_def DynamicTable_init_def)
  ultimately show ?thesis using row_keys_match_invariant by blast
qed

text \<open>
  Claim C1 as stated fails: \<open>__init__\<close> accepts a schema that names a column twice. The
  row built by \<open>add_row\<close> then has the single key \<open>Age\<close>; \<open>delete_column\<close> removes the first
  schema entry and the key, and the row is left without the key the schema still names.
\<close>

theorem duplicate_column_names_break_invariant:
  "\<not> row_keys_match
       (run_ops (DynamicTable_init [(''Age'', PyInt), (''Age'', PyInt)])
          [AddRow [VInt 1, VInt 2], DeleteColumn ''Age''])"
  by (simp add: DynamicTable_init_def add_row_def delete_column_def column_names_def
      dict_of_pairs_def dict_setitem_def dict_keys_def row_keys_match_def)

subsection \<open>remove_duplicates\<close>

lemma py_eq_canon: "py_eq a b \<longleftrightarrow> canon a = canon b"
  by (cases a; cases b) auto

lemma tuple_eq_canon: "tuple_eq xs ys \<longleftrightarrow> map canon xs = map canon ys"
  unfolding tuple_eq_def
proof (induction xs arbitrary: ys)
  case Nil
  then show ?case by auto
next
  case (Cons x xs)
  then show ?case by (cases ys) (auto simp: py_eq_canon)
qed

lemma list_ex_tuple_eq:
  "list_ex (tuple_eq kv) seen \<longleftrightarrow> map canon kv \<in> set (map (map canon) seen)"
  by (auto simp: list_ex_iff tuple_eq_canon)

lemma key_values_total:
  "fst ` set ci \<subseteq> dict_keys r \<Longrightarrow> key_values ci r = Inr (row_tuple ci r)"
proof (induction ci)
  case Nil
  then show ?case by (simp add: row_tuple_def)
next
  case (Cons c ci)
  obtain n ty where c: "c = (n, ty)" by (cases c)
  from Cons.prems have "n \<in> fst ` set r" by (simp add: c dict_keys_def)
  then obtain v where v: "map_of r n = Some v"
    by (metis domD dom_map_of_conv_image_fst)
  from Cons.prems have "key_values ci r = Inr (row_tuple ci r)" by (intro Cons.IH) simp
  with v show ?case by (simp add: c row_tuple_def)
qed

lemma key_values_row:
  "row_keys_match t \<Longrightarrow> r \<in> set (rows t) \<Longrightarrow> key_values (column_info t) r = Inr (row_tuple (column_info t) r)"
  by (rule key_values_total) (simp add: row_keys_matchD column_names_def)

lemma filter_upt_Suc:
  "filter P [0..<Suc n] = (if P 0 then [0] else []) @ map Suc (filter (\<lambda>i. P (Suc i)) [0..<n])"
proof -
  have "[0..<Suc n] = 0 # map Suc [0..<n]" by (simp add: upt_conv_Cons map_Suc_upt del: upt_Suc)
  then show ?thesis by (simp add: filter_map comp_def del: upt_Suc)
qed

lemma all_less_Suc_shift: "(\<forall>j < Suc i. P j) \<longleftrightarrow> P 0 \<and> (\<forall>j < i. P (Suc j))"
  by (metis less_Suc_eq_0_disj)

lemma dedup_loop_characterisation:
  fixes ci :: "(string \<times> pytype) list"
  defines "K \<equiv> \<lambda>r. map canon (row_tuple ci r)"
  assumes "\<forall>r \<in> set rs. key_values ci r = Inr (row_tuple ci r)"
  shows "dedup_loop ci rs seen u =
     Inr (u @ map ((!) rs)
            (filter (\<lambda>i. K (rs ! i) \<notin> set (map (map canon) seen) \<and> (\<forall>j < i. K (rs ! j) \<noteq> K (rs ! i)))
               [0..<length rs]))"
  using assms(2)
proof (induction rs arbitrary: seen u)
  case Nil
  then show ?case by simp
next
  case (Cons r rs)
  let ?C = "\<lambda>seen. set (map (map canon) seen)"
  have kv: "key_values ci r = Inr (row_tuple ci r)" using Cons.prems by simp
  have rest: "\<forall>r \<in> set rs. key_values ci r = Inr (row_tuple ci r)" using Cons.prems by simp
  have shift: "map ((!) (r # rs)) (map Suc is) = map ((!) rs) is" for "is" by simp
  show ?case
  proof (cases "K r \<in> ?C seen")
    case True
    then have "dedup_loop ci (r # rs) seen u = dedup_loop ci rs seen u"
      by (simp add: kv list_ex_tuple_eq K_def)
    also have "\<dots> = Inr (u @ map ((!) rs)
            (filter (\<lambda>i. K (rs ! i) \<notin> ?C seen \<and> (\<forall>j < i. K (rs ! j) \<noteq> K (rs ! i))) [0..<length rs]))"
      by (rule Cons.IH[OF rest])
    also have "(\<lambda>i. K (rs ! i) \<notin> ?C seen \<and> (\<forall>j < i. K (rs ! j) \<noteq> K (rs ! i)))
        = (\<lambda>i. K ((r # rs) ! Suc i) \<notin> ?C seen \<and> (\<forall>j < Suc i. K ((r # rs) ! j) \<noteq> K ((r # rs) ! Suc i)))"
      using True by (auto simp: all_less_Suc_shift)
    finally show ?thesis using True
      by (simp only: length_Cons filter_upt_Suc[of _ "length rs"] nth_Cons_0 if_False simp_thms
          append_Nil shift)
  next
    case False
    then have "dedup_loop ci (r # rs) seen u = dedup_loop ci rs (row_tuple ci r # seen) (u @ [r])"
      by (simp add: kv list_ex_tuple_eq K_def)
    also have "\<dots> = Inr ((u @ [r]) @ map ((!) rs)
            (filter (\<lambda>i. K (rs ! i) \<notin> ?C (row_tuple ci r # seen) \<and> (\<forall>j < i. K (rs ! j) \<noteq> K (rs ! i)))
               [0..<length rs]))"
      by (rule Cons.IH[OF rest])
    also have "(\<lambda>i. K (rs ! i) \<notin> ?C (row_tuple ci r # seen) \<and> (\<forall>j < i. K (rs ! j) \<noteq> K (rs ! i)))
        = (\<lambda>i. K ((r # rs) ! Suc i) \<notin> ?C seen \<and> (\<forall>j < Suc i. K ((r # rs) ! j) \<noteq> K ((r # rs) ! Suc i)))"
      by (auto simp: all_less_Suc_shift K_def)
    finally show ?thesis using False
      by (simp add: filter_upt_Suc[of _ "length rs"] del: upt_Suc)
  qed
qed

lemma dedup_loop_distinct:
  assumes "dedup_loop ci rs seen u = Inr res"
    and "distinct (map (\<lambda>r. map canon (row_tuple ci r)) u)"
    and "(\<lambda>r. map canon (row_tuple ci r)) ` set u \<subseteq> set (map (map canon) seen)"
    and "\<forall>r \<in> set rs. key_values ci r = Inr (row_tuple ci r)"
  shows "distinct (map (\<lambda>r. map canon (row_tuple ci r)) res)"
  using assms
proof (induction rs arbitrary: seen u)
  case Nil
  then show ?case by simp
next
  case (Cons r rs)
  let ?K = "\<lambda>r. map canon (row_tuple ci r)"
  have kv: "key_values ci r = Inr (row_tuple ci r)" using Cons.prems(4) by simp
  have rest: "\<forall>r \<in> set rs. key_values ci r = Inr (row_tuple ci r)" using Cons.prems(4) by simp
  show ?case
  proof (cases "?K r \<in> set (map (map canon) seen)")
    case True
    then have "dedup_loop ci rs seen u = Inr res"
      using Cons.prems(1) by (simp add: kv list_ex_tuple_eq)
    then show ?thesis using Cons.prems(2,3) rest by (rule Cons.IH)
  next
    case False
    then have run: "dedup_loop ci rs (row_tuple ci r # seen) (u @ [r]) = Inr res"
      using Cons.prems(1) by (simp add: kv list_ex_tuple_eq)
    have "?K r \<notin> ?K ` set u" using False Cons.prems(3) by blast
    then have d: "distinct (map ?K (u @ [r]))" using Cons.prems(2) by simp
    have s: "?K ` set (u @ [r]) \<subseteq> set (map (map canon) (row_tuple ci r # seen))"
      using Cons.prems(3) by auto
    from run d s rest show ?thesis by (rule Cons.IH)
  qed
qed

lemma dedup_loop_no_duplicates:
  assumes "distinct (map (\<lambda>r. map canon (row_tuple ci r)) rs)"
    and "\<forall>r \<in> set rs. map canon (row_tuple ci r) \<notin> set (map (map canon) seen)"
    and "\<forall>r \<in> set rs. key_values ci r = Inr (row_tuple ci r)"
  shows "dedup_loop ci rs seen u = Inr (u @ rs)"
  using assms
proof (induction rs arbitrary: seen u)
  case Nil
  then show ?case by simp
next
  case (Cons r rs)
  have kv: "key_values ci r = Inr (row_tuple ci r)" using Cons.prems(3) by simp
  have fresh: "\<forall>r' \<in> set rs. map canon (row_tuple ci r') \<noteq> map canon (row_tuple ci r)"
    using Cons.prems(1) by (simp add: image_iff) metis
  have "dedup_loop ci rs (row_tuple ci r # seen) (u @ [r]) = Inr ((u @ [r]) @ rs)"
  proof (rule Cons.IH)
    show "distinct (map (\<lambda>r. map canon (row_tuple ci r)) rs)" using Cons.prems(1) by simp
    show "\<forall>r' \<in> set rs. map canon (row_tuple ci r') \<notin> set (map (map canon) (row_tuple ci r # seen))"
      using Cons.prems(2) fresh by simp
    show "\<forall>r \<in> set rs. key_values ci r = Inr (row_tuple ci r)" using Cons.prems(3) by simp
  qed
  then show ?case using Cons.prems(2) by (simp add: kv list_ex_tuple_eq)
qed

lemma remove_duplicates_returns:
  assumes m: "row_keys_match t"
  shows "remove_duplicates t =
     (Returned,
      t\<lparr>rows := map ((!) (rows t))
          (filter (\<lambda>i. \<forall>j < i. \<not> tuple_eq (row_tuple (column_info t) (rows t ! j))
                                     (row_tuple (column_info t) (rows t ! i)))
             [0..<length (rows t)])\<rparr>)"
proof -
  have keys: "\<forall>r \<in> set (rows t). key_values (column_info t) r = Inr (row_tuple (column_info t) r)"
    using m by (simp add: key_values_row)
  show ?thesis
    by (simp add: remove_duplicates_def dedup_loop_characterisation[OF keys] tuple_eq_canon)
qed

lemma remove_duplicates_idempotent:
  assumes m: "row_keys_match t"
  shows "remove_duplicates (snd (remove_duplicates t)) = (Returned, snd (remove_duplicates t))"
proof -
  let ?ci = "column_info t"
  have keys: "\<forall>r \<in> set (rows t). key_values ?ci r = Inr (row_tuple ?ci r)"
    using m by (simp add: key_values_row)
  obtain res where res: "dedup_loop ?ci (rows t) [] [] = Inr res"
    using dedup_loop_characterisation[OF keys] by blast
  then have t': "snd (remove_duplicates t) = t\<lparr>rows := res\<rparr>"
    by (simp add: remove_duplicates_def)
  have d: "distinct (map (\<lambda>r. map canon (row_tuple ?ci r)) res)"
    using res _ _ keys by (rule dedup_loop_distinct) simp_all
  have "set res \<subseteq> set (rows t)" using dedup_loop_subset[OF res] by simp
  then have keys': "\<forall>r \<in> set res. key_values ?ci r = Inr (row_tuple ?ci r)" using keys by blast
  have "dedup_loop ?ci res [] [] = Inr ([] @ res)"
    using d _ keys' by (rule dedup_loop_no_duplicates) simp
  then have "remove_duplicates (t\<lparr>rows := res\<rparr>) = (Returned, t\<lparr>rows := res\<rparr>)"
    by (simp add: remove_duplicates_def)
  then show ?thesis by (simp only: t')
qed

text \<open>
  Claim C4, amended. On a table whose rows hold exactly the schema's columns, \<open>remove_duplicates\<close>
  returns and keeps the row at position \<open>i\<close> exactly when no earlier row has a tuple of
  values (in schema-column order) equal to its own, in the original order; equality of
  tuples is Python's, component by component (\<open>tuple_eq\<close>). A second call changes nothing.
\<close>

theorem remove_duplicates_keeps_first_occurrences:
  assumes "row_keys_match t"
  shows "remove_duplicates t =
     (Returned,
      t\<lparr>rows := map ((!) (rows t))
          (filter (\<lambda>i. \<forall>j < i. \<not> tuple_eq (row_tuple (column_info t) (rows t ! j))
                                     (row_tuple (column_info t) (rows t ! i)))
             [0..<length (rows t)])\<rparr>)
   \<and> remove_duplicates (snd (remove_duplicates t)) = (Returned, snd (remove_duplicates t))"
  using remove_duplicates_returns[OF assms] remove_duplicates_idempotent[OF assms] by simp

text \<open>
  Claim C10. On a table whose rows satisfy the row-keys-match-schema invariant,
  \<open>remove_duplicates\<close> returns without raising, and the table it leaves differs from the
  original in the row sequence only: \<open>column_info\<close> is the same list.
\<close>

theorem remove_duplicates_frame:
  assumes "row_keys_match t"
  shows "fst (remove_duplicates t) = Returned
    \<and> column_info (snd (remove_duplicates t)) = column_info t
    \<and> (\<exists>rs. snd (remove_duplicates t) = t\<lparr>rows := rs\<rparr>)"
proof -
  note r = remove_duplicates_returns[OF assms]
  have "\<exists>rs. snd (remove_duplicates t) = t\<lparr>rows := rs\<rparr>" by (subst r) (rule exI, simp)
  moreover have "fst (remove_duplicates t) = Returned" by (simp add: r)
  moreover have "column_info (snd (remove_duplicates t)) = column_info t" by (simp add: r)
  ultimately show ?thesis by blast
qed

subsection \<open>All or nothing\<close>

lemma validate_values_error:
  "validate_values cs vals i acc = Inl e \<Longrightarrow> i + length cs \<le> length vals \<Longrightarrow>
   (case e of TypeMismatch c ty v \<Rightarrow> True | _ \<Rightarrow> False)"
proof (induction cs arbitrary: i acc)
  case Nil
  then show ?case by simp
next
  case (Cons c cs)
  obtain n ty where c: "c = (n, ty)" by (cases c)
  from Cons.prems(2) have i: "i < length vals" by simp
  show ?case
  proof (cases "isinstance (vals ! i) ty")
    case False
    with Cons.prems(1) i show ?thesis by (auto simp: c)
  next
    case True
    with Cons.prems(1) i have "validate_values cs vals (Suc i) (acc @ [vals ! i]) = Inl e"
      by (simp add: c)
    moreover have "Suc i + length cs \<le> length vals" using Cons.prems(2) by simp
    ultimately show ?thesis by (rule Cons.IH)
  qed
qed

lemma add_row_atomic:
  "fst (add_row t vals) = Raised e \<Longrightarrow> specific_error (AddRow vals) e \<and> snd (add_row t vals) = t"
  by (auto simp: add_row_def split: if_splits sum.splits error.splits
      dest!: validate_values_error)

lemma update_row_atomic:
  "fst (update_row t i vals) = Raised e \<Longrightarrow>
   specific_error (UpdateRow i vals) e \<and> snd (update_row t i vals) = t"
  by (auto simp: update_row_def split: if_splits sum.splits error.splits
      dest!: validate_values_error)

lemma delete_row_atomic:
  "fst (delete_row t i) = Raised e \<Longrightarrow> specific_error (DeleteRow i) e \<and> snd (delete_row t i) = t"
  by (auto simp: delete_row_def list_delitem_def Let_def split: if_splits sum.splits)

lemma add_column_atomic:
  "fst (add_column t n ty) = Raised e \<Longrightarrow>
   specific_error (AddColumn n ty) e \<and> snd (add_column t n ty) = t"
  by (auto simp: add_column_def split: if_splits)

lemma delete_column_atomic:
  assumes "distinct (column_names t)" "row_keys_match t" "fst (delete_column t n) = Raised e"
  shows "specific_error (DeleteColumn n) e \<and> snd (delete_column t n) = t"
proof (cases "n \<in> set (column_names t)")
  case True
  from delete_column_ok[OF assms(1,2) True] assms(3) show ?thesis by auto
next
  case False
  with assms(3) show ?thesis by (simp add: delete_column_def)
qed

lemma apply_op_atomic:
  assumes "distinct (column_names t)" "row_keys_match t" "fst (apply_op t op) = Raised e"
  shows "specific_error op e \<and> snd (apply_op t op) = t"
proof (cases op)
  case (AddColumn n ty)
  then show ?thesis using assms(3) add_column_atomic by simp
next
  case (DeleteColumn n)
  then show ?thesis using assms delete_column_atomic by simp
next
  case (AddRow vals)
  then show ?thesis using assms(3) add_row_atomic by simp
next
  case (UpdateRow i vals)
  then show ?thesis using assms(3) update_row_atomic by simp
next
  case (DeleteRow i)
  then show ?thesis using assms(3) delete_row_atomic by simp
next
  case RemoveDuplicates
  then show ?thesis using assms(3) remove_duplicates_returns[OF assms(2)] by simp
qed

text \<open>
  Claim C3, amended. On a table whose column names are pairwise distinct and whose rows
  satisfy the row-keys-match-schema invariant, each of the six table operations either
  returns, leaving the invariant (and the distinct names) in place, or raises the error the
  specification names for it and leaves the table exactly as it was. \<open>add_table\<close> either
  registers a new empty table under a name that was free, or raises and leaves the
  database as it was; \<open>remove_table\<close> either removes the name or raises and leaves the
  database as it was.
\<close>

theorem core_operations_all_or_nothing:
  "(distinct (column_names t) \<and> row_keys_match t \<longrightarrow>
      (case apply_op t op of
         (Returned, t') \<Rightarrow> row_keys_match t' \<and> distinct (column_names t')
       | (Raised e, t') \<Rightarrow> specific_error op e \<and> t' = t))
   \<and> (case add_table db n ci of
         (Returned, db') \<Rightarrow>
           n \<notin> dict_keys (tables db)
           \<and> map_of (tables db') = (map_of (tables db))(n \<mapsto> DynamicTable_init ci)
           \<and> row_keys_match (DynamicTable_init ci)
       | (Raised e, db') \<Rightarrow> e = TableExists n \<and> db' = db)
   \<and> (case remove_table db n of
         (Returned, db') \<Rightarrow>
           n \<in> dict_keys (tables db) \<and> map_of (tables db') = (map_of (tables db))(n := None)
       | (Raised e, db') \<Rightarrow> e = TableMissing n \<and> db' = db)"
proof (intro conjI impI)
  assume wf: "distinct (column_names t) \<and> row_keys_match t"
  obtain oc t' where r: "apply_op t op = (oc, t')" by (cases "apply_op t op")
  show "case apply_op t op of
         (Returned, t') \<Rightarrow> row_keys_match t' \<and> distinct (column_names t')
       | (Raised e, t') \<Rightarrow> specific_error op e \<and> t' = t"
  proof (cases oc)
    case Returned
    then show ?thesis using apply_op_wf[of t op] wf r by simp
  next
    case (Raised e)
    then show ?thesis using apply_op_atomic[of t op e] wf r by simp
  qed
next
  show "case add_table db n ci of
         (Returned, db') \<Rightarrow>
           n \<notin> dict_keys (tables db)
           \<and> map_of (tables db') = (map_of (tables db))(n \<mapsto> DynamicTable_init ci)
           \<and> row_keys_match (DynamicTable_init ci)
       | (Raised e, db') \<Rightarrow> e = TableExists n \<and> db' = db"
    by (simp add: add_table_def dict_setitem_def update_conv' row_keys_match_def DynamicTable_init_def)
next
  show "case remove_table db n of
         (Returned, db') \<Rightarrow>
           n \<in> dict_keys (tables db) \<and> map_of (tables db') = (map_of (tables db))(n := None)
       | (Raised e, db') \<Rightarrow> e = TableMissing n \<and> db' = db"
    by (simp add: remove_table_def delete_conv')
qed

lemma list_index_append_fresh: "x \<notin> set xs \<Longrightarrow> list_index (xs @ [x]) x = Some (length xs)"
  by (induction xs) auto

lemma delete_appended: "k \<notin> fst ` set d \<Longrightarrow> AList.delete k (d @ [(k, v)]) = d"
  by (induction d) auto

text \<open>
  Claim C9, amended. On a table whose rows satisfy the row-keys-match-schema invariant, for a name
  \<open>n\<close> that is not a column: \<open>add_column\<close> returns with \<open>(n, ty)\<close> appended to the schema and
  \<open>n\<close> mapped to \<open>None\<close> at the end of every row, and \<open>delete_column\<close> of \<open>n\<close> then returns
  the original table: the same schema (names, types, order) and the same rows, key for key
  and value for value.
\<close>

theorem add_then_delete_column_restores:
  assumes m: "row_keys_match t" and n: "n \<notin> set (column_names t)"
  shows "add_column t n ty =
           (Returned, \<lparr>column_info = column_info t @ [(n, ty)],
                       rows = map (\<lambda>r. r @ [(n, VNone)]) (rows t)\<rparr>)
    \<and> delete_column (snd (add_column t n ty)) n = (Returned, t)"
proof -
  let ?t1 = "\<lparr>column_info = column_info t @ [(n, ty)], rows = map (\<lambda>r. r @ [(n, VNone)]) (rows t)\<rparr>"
  have fresh: "\<forall>r \<in> set (rows t). n \<notin> fst ` set r"
  proof
    fix r assume "r \<in> set (rows t)"
    with m have "dict_keys r = set (column_names t)" by (rule row_keys_matchD)
    with n show "n \<notin> fst ` set r" by (simp add: dict_keys_def)
  qed
  then have "map (\<lambda>row. dict_setitem row n VNone) (rows t) = map (\<lambda>r. r @ [(n, VNone)]) (rows t)"
    by (simp add: dict_setitem_def update_fresh)
  then have add: "add_column t n ty = (Returned, ?t1)" using n by (simp add: add_column_def)
  have idx: "list_index (column_names ?t1) n = Some (length (column_info t))"
    using list_index_append_fresh[OF n] by (simp add: column_names_def)
  have "\<forall>r \<in> set (rows ?t1). n \<in> dict_keys r" by (auto simp: dict_keys_def)
  then have "del_key_rows n (rows ?t1) = (Returned, map (AList.delete n) (rows ?t1))"
    by (rule del_key_rows_all)
  also have "map (AList.delete n) (rows ?t1) = rows t"
    using fresh by (simp add: comp_def delete_appended map_idI)
  finally have del: "del_key_rows n (rows ?t1) = (Returned, rows t)" .
  have "delete_column ?t1 n = (Returned, t)"
    using idx del by (simp add: delete_column_def) (simp add: column_names_def)
  with add show ?thesis by simp
qed

subsection \<open>The seed table\<close>

lemmas table_eval =
  DynamicTable_init_def add_row_def add_column_def delete_column_def update_row_def delete_row_def
  remove_duplicates_def column_names_def dict_of_pairs_def dict_setitem_def dict_keys_def
  list_delitem_def tuple_eq_def row_keys_match_def seed_columns_def Let_def

lemma seed_table_eq:
  "seed_table =
     \<lparr>column_info = seed_columns,
      rows = [zip (map fst seed_columns) alice, zip (map fst seed_columns) bob,
              zip (map fst seed_columns) alice, zip (map fst seed_columns) charlie]\<rparr>"
  by (simp add: seed_table_def table_eval alice_def bob_def charlie_def)

lemma seed_table_keys: "row_keys_match seed_table"
  by (simp add: seed_table_eq row_keys_match_def dict_keys_def column_names_def)
     (simp add: seed_columns_def alice_def bob_def charlie_def)

lemma seed_table_distinct: "distinct (column_names seed_table)"
  by (simp add: seed_table_eq column_names_def) (simp add: seed_columns_def)

lemma seed_table_dedup:
  "remove_duplicates seed_table =
     (Returned, seed_table\<lparr>rows := [zip (map fst seed_columns) alice, zip (map fst seed_columns) bob,
                                     zip (map fst seed_columns) charlie]\<rparr>)"
  by (simp add: seed_table_eq remove_duplicates_def tuple_eq_def seed_columns_def alice_def bob_def charlie_def)

text \<open>
  C4 on the seed table: the third row repeats the first and is the one dropped.
\<close>

theorem remove_duplicates_keeps_first_occurrences_witness:
  "row_keys_match seed_table
   \<and> remove_duplicates seed_table =
       (Returned, seed_table\<lparr>rows := [zip (map fst seed_columns) alice, zip (map fst seed_columns) bob,
                                       zip (map fst seed_columns) charlie]\<rparr>)
   \<and> remove_duplicates
        (seed_table\<lparr>rows := [zip (map fst seed_columns) alice, zip (map fst seed_columns) bob,
                              zip (map fst seed_columns) charlie]\<rparr>) =
       (Returned, seed_table\<lparr>rows := [zip (map fst seed_columns) alice, zip (map fst seed_columns) bob,
                                       zip (map fst seed_columns) charlie]\<rparr>)"
  using remove_duplicates_keeps_first_occurrences[OF seed_table_keys, THEN conjunct2]
    seed_table_keys seed_table_dedup by simp

text \<open>
  C10 on the seed table.
\<close>

theorem remove_duplicates_frame_witness:
  "row_keys_match seed_table \<and> fst (remove_duplicates seed_table) = Returned
   \<and> column_info (snd (remove_duplicates seed_table)) = seed_columns"
  using remove_duplicates_frame[OF seed_table_keys] seed_table_keys
  by (simp add: seed_table_eq)

text \<open>
  C9 on the seed table with the column \<open>Score\<close>.
\<close>

theorem add_then_delete_column_restores_witness:
  "add_column seed_table ''Score'' PyInt =
     (Returned, \<lparr>column_info = column_info seed_table @ [(''Score'', PyInt)],
                 rows = map (\<lambda>r. r @ [(''Score'', VNone)]) (rows seed_table)\<rparr>)
   \<and> delete_column (snd (add_column seed_table ''Score'' PyInt)) ''Score'' = (Returned, seed_table)"
proof -
  have "''Score'' \<notin> set (column_names seed_table)"
    by (simp add: seed_table_eq column_names_def) (simp add: seed_columns_def)
  with seed_table_keys show ?thesis by (rule add_then_delete_column_restores)
qed

text \<open>
  C3 on the seed table: a failing \<open>update_row\<close>, a succeeding \<open>delete_column\<close>, and the two
  database operations.
\<close>

theorem core_operations_all_or_nothing_witness:
  "apply_op seed_table (UpdateRow 4 alice) = (Raised RowIndexOutOfBounds, seed_table)
   \<and> fst (apply_op seed_table (DeleteColumn ''City'')) = Returned
   \<and> row_keys_match (snd (apply_op seed_table (DeleteColumn ''City'')))
   \<and> add_table \<lparr>tables = [(''Table1'', seed_table)]\<rparr> ''Table1'' seed_columns =
       (Raised (TableExists ''Table1''), \<lparr>tables = [(''Table1'', seed_table)]\<rparr>)
   \<and> remove_table \<lparr>tables = [(''Table1'', seed_table)]\<rparr> ''Table1'' = (Returned, \<lparr>tables = []\<rparr>)"
proof -
  have wf: "distinct (column_names seed_table) \<and> row_keys_match seed_table"
    using seed_table_distinct seed_table_keys by simp
  note T = core_operations_all_or_nothing[where t = seed_table]
  have u: "fst (apply_op seed_table (UpdateRow 4 alice)) = Raised RowIndexOutOfBounds"
    by (simp add: update_row_def seed_table_eq)
  have "snd (apply_op seed_table (UpdateRow 4 alice)) = seed_table"
    using T[where op = "UpdateRow 4 alice", THEN conjunct1, rule_format, OF wf] u
    by (simp add: split_beta)
  with u have 1: "apply_op seed_table (UpdateRow 4 alice) = (Raised RowIndexOutOfBounds, seed_table)"
    by (simp add: prod_eq_iff)
  have d: "fst (apply_op seed_table (DeleteColumn ''City'')) = Returned"
    by (simp add: seed_table_eq delete_column_def column_names_def)
       (simp add: seed_columns_def alice_def bob_def charlie_def dict_keys_def)
  have 2: "row_keys_match (snd (apply_op seed_table (DeleteColumn ''City'')))"
    using T[where op = "DeleteColumn ''City''", THEN conjunct1, rule_format, OF wf] d
    by (simp add: split_beta)
  have 3: "add_table \<lparr>tables = [(''Table1'', seed_table)]\<rparr> ''Table1'' seed_columns =
       (Raised (TableExists ''Table1''), \<lparr>tables = [(''Table1'', seed_table)]\<rparr>)"
    by (simp add: add_table_def dict_keys_def)
  have 4: "remove_table \<lparr>tables = [(''Table1'', seed_table)]\<rparr> ''Table1'' = (Returned, \<lparr>tables = []\<rparr>)"
    by (simp add: remove_table_def dict_keys_def)
  from 1 d 2 3 4 show ?thesis by simp
qed

subsection \<open>Duplicate column names; Booleans in integer columns\<close>

text \<open>
  Claim C3 as stated fails. \<open>add_table\<close> accepts a schema that names \<open>Age\<close> twice; after one
  \<open>add_row\<close> the invariant holds; \<open>delete_column\<close> then returns normally and leaves a row
  without the key \<open>Age\<close> that the schema still names; a second \<open>delete_column\<close> raises
  \<open>KeyError\<close> after it has already removed the schema entry.
\<close>

theorem duplicate_names_delete_column_counterexample:
  "add_table \<lparr>tables = []\<rparr> ''T'' twice_age = (Returned, \<lparr>tables = [(''T'', DynamicTable_init twice_age)]\<rparr>)
   \<and> add_row (DynamicTable_init twice_age) [VInt 1, VInt 2] = (Returned, twice_age_table)
   \<and> row_keys_match twice_age_table
   \<and> delete_column twice_age_table ''Age'' = (Returned, \<lparr>column_info = [(''Age'', PyInt)], rows = [[]]\<rparr>)
   \<and> \<not> row_keys_match \<lparr>column_info = [(''Age'', PyInt)], rows = [[]]\<rparr>
   \<and> delete_column \<lparr>column_info = [(''Age'', PyInt)], rows = [[]]\<rparr> ''Age''
       = (Raised (KeyError ''Age''), \<lparr>column_info = [], rows = [[]]\<rparr>)"
  by (simp add: add_table_def add_row_def delete_column_def DynamicTable_init_def twice_age_def
      twice_age_table_def column_names_def dict_of_pairs_def dict_setitem_def dict_keys_def
      row_keys_match_def)

text \<open>
  Claim C5 as stated fails: \<open>True\<close> for the \<open>int\<close> column \<open>Age\<close> passes \<open>isinstance\<close>, and the
  row is appended.
\<close>

theorem bool_accepted_in_int_column:
  "add_row (DynamicTable_init seed_columns) [VStr ''Alice'', VBool True, VStr ''New York'', VBool False]
     = (Returned,
        \<lparr>column_info = seed_columns,
         rows = [[(''Name'', VStr ''Alice''), (''Age'', VBool True), (''City'', VStr ''New York''),
                  (''IsStudent'', VBool False)]]\<rparr>)"
  by (simp add: add_row_def DynamicTable_init_def seed_columns_def column_names_def
      dict_of_pairs_def dict_setitem_def)

lemma validate_values_mismatch:
  "validate_values cs vals i acc = Inl (TypeMismatch n ty v) \<Longrightarrow> \<not> isinstance v ty"
proof (induction cs arbitrary: i acc)
  case Nil
  then show ?case by simp
next
  case (Cons c cs)
  obtain n' ty' where c: "c = (n', ty')" by (cases c)
  show ?case
  proof (cases "i < length vals \<and> isinstance (vals ! i) ty'")
    case True
    with Cons.prems have "validate_values cs vals (Suc i) (acc @ [vals ! i]) = Inl (TypeMismatch n ty v)"
      by (simp add: c)
    then show ?thesis by (rule Cons.IH)
  next
    case False
    with Cons.prems show ?thesis by (auto simp: c split: if_splits)
  qed
qed

lemma validate_values_rejects:
  assumes "length vals = length cs" "i < length cs" "\<not> isinstance (vals ! i) (snd (cs ! i))"
  shows "\<exists>e. validate_values cs vals 0 [] = Inl e"
proof -
  from validate_values_dichotomy[of 0 cs vals] assms
  obtain k where k: "k < length cs" "\<not> isinstance (vals ! k) (snd (cs ! k))"
      "\<forall>j < k. isinstance (vals ! j) (snd (cs ! j))"
    by auto
  have "validate_values cs vals 0 [] = Inl (TypeMismatch (fst (cs ! k)) (snd (cs ! k)) (vals ! (0 + k)))"
    using assms(1) k by (intro validate_values_fail) simp_all
  then show ?thesis by blast
qed

text \<open>
  Claim C5, amended. Where the schema declares \<open>int\<close> at position \<open>i\<close> and the arity is
  right: a Boolean at position \<open>i\<close> passes the check of that position, so the row is appended
  (Boolean stored) when every other position passes; no call ever reports a Boolean as a
  mismatch for an \<open>int\<close> column; a text or \<open>None\<close> at position \<open>i\<close> makes the call raise and
  leave the table as it was.
\<close>

theorem add_row_bool_is_int:
  assumes i: "i < length (column_info t)" and ty: "snd (column_info t ! i) = PyInt"
    and len: "length vals = length (column_info t)"
  shows "(vals ! i = VBool b \<longrightarrow>
            (\<forall>k < length (column_info t). k \<noteq> i \<longrightarrow> isinstance (vals ! k) (snd (column_info t ! k))) \<longrightarrow>
            add_row t vals = (Returned, t\<lparr>rows := rows t @ [dict_of_pairs (zip (column_names t) vals)]\<rparr>))
    \<and> (\<forall>n b'. fst (add_row t vals) \<noteq> Raised (TypeMismatch n PyInt (VBool b')))
    \<and> ((\<exists>s. vals ! i = VStr s) \<or> vals ! i = VNone \<longrightarrow>
          (\<exists>e. fst (add_row t vals) = Raised e) \<and> snd (add_row t vals) = t)"
proof (intro conjI impI allI)
  assume b: "vals ! i = VBool b"
    and others: "\<forall>k < length (column_info t). k \<noteq> i \<longrightarrow> isinstance (vals ! k) (snd (column_info t ! k))"
  have "\<forall>k < length (column_info t). isinstance (vals ! (0 + k)) (snd (column_info t ! k))"
  proof (intro allI impI)
    fix k assume k: "k < length (column_info t)"
    show "isinstance (vals ! (0 + k)) (snd (column_info t ! k))"
    proof (cases "k = i")
      case True
      then show ?thesis using b ty by simp
    next
      case False
      then show ?thesis using others k by simp
    qed
  qed
  then have "validate_values (column_info t) vals 0 [] = Inr ([] @ take (length (column_info t)) (drop 0 vals))"
    using len by (intro validate_values_ok) simp_all
  then show "add_row t vals = (Returned, t\<lparr>rows := rows t @ [dict_of_pairs (zip (column_names t) vals)]\<rparr>)"
    using len by (simp add: add_row_def)
next
  fix n b'
  show "fst (add_row t vals) \<noteq> Raised (TypeMismatch n PyInt (VBool b'))"
  proof
    assume "fst (add_row t vals) = Raised (TypeMismatch n PyInt (VBool b'))"
    then have "validate_values (column_info t) vals 0 [] = Inl (TypeMismatch n PyInt (VBool b'))"
      by (auto simp: add_row_def split: if_splits sum.splits)
    from validate_values_mismatch[OF this] show False by simp
  qed
next
  assume "(\<exists>s. vals ! i = VStr s) \<or> vals ! i = VNone"
  then have "\<not> isinstance (vals ! i) (snd (column_info t ! i))" using ty by auto
  from validate_values_rejects[OF len i this] obtain e
    where "validate_values (column_info t) vals 0 [] = Inl e" ..
  then have "add_row t vals = (Raised e, t)" using len by (simp add: add_row_def)
  then show "\<exists>e. fst (add_row t vals) = Raised e" and "snd (add_row t vals) = t" by simp_all
qed

text \<open>
  The amended C5 on the seed schema: \<open>False\<close> is accepted as an age, the text \<open>30\<close> is not.
\<close>

theorem add_row_bool_is_int_witness:
  "add_row (DynamicTable_init seed_columns) [VStr ''Bob'', VBool False, VStr ''SF'', VBool True]
     = (Returned,
        \<lparr>column_info = seed_columns,
         rows = [[(''Name'', VStr ''Bob''), (''Age'', VBool False), (''City'', VStr ''SF''),
                  (''IsStudent'', VBool True)]]\<rparr>)
   \<and> snd (add_row (DynamicTable_init seed_columns) [VStr ''Bob'', VStr ''30'', VStr ''SF'', VBool True])
     = DynamicTable_init seed_columns"
proof -
  let ?t = "DynamicTable_init seed_columns"
  let ?v = "[VStr ''Bob'', VBool False, VStr ''SF'', VBool True]"
  let ?w = "[VStr ''Bob'', VStr ''30'', VStr ''SF'', VBool True]"
  have ci: "column_info ?t = seed_columns" by (simp add: DynamicTable_init_def)
  have h: "1 < length (column_info ?t)" "snd (column_info ?t ! 1) = PyInt"
      "length ?v = length (column_info ?t)" "length ?w = length (column_info ?t)"
    by (simp_all add: ci) (simp_all add: seed_columns_def)
  have o: "\<forall>k < length (column_info ?t). k \<noteq> 1 \<longrightarrow> isinstance (?v ! k) (snd (column_info ?t ! k))"
    by (auto simp: DynamicTable_init_def seed_columns_def less_Suc_eq)
  have "?v ! 1 = VBool False" by simp
  with add_row_bool_is_int[OF h(1,2,3), of False] o
  have "add_row ?t ?v = (Returned, ?t\<lparr>rows := rows ?t @ [dict_of_pairs (zip (column_names ?t) ?v)]\<rparr>)"
    by blast
  then have 1: "add_row ?t ?v = (Returned,
        \<lparr>column_info = seed_columns,
         rows = [[(''Name'', VStr ''Bob''), (''Age'', VBool False), (''City'', VStr ''SF''),
                  (''IsStudent'', VBool True)]]\<rparr>)"
    by (simp add: DynamicTable_init_def column_names_def dict_of_pairs_def dict_setitem_def)
       (simp add: seed_columns_def)
  have "\<exists>s. ?w ! 1 = VStr s" by simp
  with add_row_bool_is_int[OF h(1,2,4), of False] have 2: "snd (add_row ?t ?w) = ?t" by blast
  from 1 2 show ?thesis by simp
qed

subsection \<open>Row deletion\<close>

lemma delete_row_out_of_range:
  "row_index \<ge> int (length (rows t)) \<or> row_index < - int (length (rows t)) \<Longrightarrow>
   delete_row t row_index = (Raised ListIndexOutOfRange, t)"
  by (auto simp: delete_row_def list_delitem_def Let_def)

lemma delete_row_in_range:
  "0 \<le> row_index \<Longrightarrow> row_index < int (length (rows t)) \<Longrightarrow>
   delete_row t row_index =
     (Returned, t\<lparr>rows := take (nat row_index) (rows t) @ drop (Suc (nat row_index)) (rows t)\<rparr>)"
  by (simp add: delete_row_def list_delitem_def Let_def)

lemma delete_row_negative:
  "row_index < 0 \<Longrightarrow> - int (length (rows t)) \<le> row_index \<Longrightarrow>
   delete_row t row_index =
     (Returned, t\<lparr>rows := take (nat (row_index + int (length (rows t)))) (rows t)
                          @ drop (Suc (nat (row_index + int (length (rows t))))) (rows t)\<rparr>)"
  by (simp add: delete_row_def list_delitem_def Let_def)

text \<open>
  Claim C6 against the code, on the seed table with its four rows: the index \<open>-1\<close> does not
  fail, it deletes the last row and the mutation reports success, while \<open>update_row\<close> with
  the same index raises its \<open>IndexError\<close>. The index equal to the row count does fail and
  leaves the rows as they were.
\<close>

theorem delete_row_minus_one_removes_last_row:
  "delete_row seed_table (- 1) =
     (Returned, seed_table\<lparr>rows := [zip (map fst seed_columns) alice, zip (map fst seed_columns) bob,
                                     zip (map fst seed_columns) alice]\<rparr>)
   \<and> fst (DeleteRowMutation_mutate \<lparr>tables = [(''Table1'', seed_table)]\<rparr> ''Table1'' (- 1)) = True
   \<and> update_row seed_table (- 1) charlie = (Raised RowIndexOutOfBounds, seed_table)
   \<and> delete_row seed_table 4 = (Raised ListIndexOutOfRange, seed_table)"
  by (simp add: seed_table_eq delete_row_def list_delitem_def update_row_def
      DeleteRowMutation_mutate_def dict_keys_def)

subsection \<open>Text conversion\<close>

lemma lower_char_eq:
  assumes d: "97 \<le> (of_char d :: nat)" "(of_char d :: nat) \<le> 122"
  shows "lower_char c = d \<longleftrightarrow> c = d \<or> (of_char c :: nat) + 32 = of_char d"
proof (cases "65 \<le> (of_char c :: nat) \<and> (of_char c :: nat) \<le> 90")
  case True
  then have "lower_char c = char_of ((of_char c :: nat) + 32)" by (simp add: lower_char_def)
  moreover have "char_of ((of_char c :: nat) + 32) = d \<longleftrightarrow> ((of_char c :: nat) + 32) mod 256 = of_char d"
    by (simp add: char_of_eq_iff take_bit_eq_mod)
  moreover have "((of_char c :: nat) + 32) mod 256 = of_char c + 32" using True by simp
  moreover have "c \<noteq> d" using True d by auto
  ultimately show ?thesis by simp
next
  case False
  then have "lower_char c = c" by (auto simp: lower_char_def)
  moreover have "(of_char c :: nat) + 32 \<noteq> of_char d" using False d by auto
  ultimately show ?thesis by simp
qed

lemma of_char_plus_32:
  "(of_char c :: nat) + 32 = 116 \<longleftrightarrow> c = CHR ''T''"
  "(of_char c :: nat) + 32 = 114 \<longleftrightarrow> c = CHR ''R''"
  "(of_char c :: nat) + 32 = 117 \<longleftrightarrow> c = CHR ''U''"
  "(of_char c :: nat) + 32 = 101 \<longleftrightarrow> c = CHR ''E''"
proof -
  have "(of_char c :: nat) + 32 = 116 \<longleftrightarrow> (of_char c :: nat) = of_char CHR ''T''" by auto
  then show "(of_char c :: nat) + 32 = 116 \<longleftrightarrow> c = CHR ''T''" by (simp only: of_char_eq_iff)
  have "(of_char c :: nat) + 32 = 114 \<longleftrightarrow> (of_char c :: nat) = of_char CHR ''R''" by auto
  then show "(of_char c :: nat) + 32 = 114 \<longleftrightarrow> c = CHR ''R''" by (simp only: of_char_eq_iff)
  have "(of_char c :: nat) + 32 = 117 \<longleftrightarrow> (of_char c :: nat) = of_char CHR ''U''" by auto
  then show "(of_char c :: nat) + 32 = 117 \<longleftrightarrow> c = CHR ''U''" by (simp only: of_char_eq_iff)
  have "(of_char c :: nat) + 32 = 101 \<longleftrightarrow> (of_char c :: nat) = of_char CHR ''E''" by auto
  then show "(of_char c :: nat) + 32 = 101 \<longleftrightarrow> c = CHR ''E''" by (simp only: of_char_eq_iff)
qed

lemma lower_char_true_letters:
  "lower_char c = CHR ''t'' \<longleftrightarrow> c = CHR ''t'' \<or> c = CHR ''T''"
  "lower_char c = CHR ''r'' \<longleftrightarrow> c = CHR ''r'' \<or> c = CHR ''R''"
  "lower_char c = CHR ''u'' \<longleftrightarrow> c = CHR ''u'' \<or> c = CHR ''U''"
  "lower_char c = CHR ''e'' \<longleftrightarrow> c = CHR ''e'' \<or> c = CHR ''E''"
  by (simp_all add: lower_char_eq of_char_plus_32)

lemma map_eq_4:
  "map f s = [w, x, y, z] \<longleftrightarrow> (\<exists>a b c d. s = [a, b, c, d] \<and> f a = w \<and> f b = x \<and> f c = y \<and> f d = z)"
proof (cases s)
  case Nil
  then show ?thesis by simp
next
  case s1: (Cons a s1)
  show ?thesis
  proof (cases s1)
    case Nil
    with s1 show ?thesis by simp
  next
    case s2: (Cons b s2)
    show ?thesis
    proof (cases s2)
      case Nil
      with s1 s2 show ?thesis by simp
    next
      case s3: (Cons c s3)
      show ?thesis
      proof (cases s3)
        case Nil
        with s1 s2 s3 show ?thesis by simp
      next
        case s4: (Cons d s4)
        show ?thesis
        proof (cases s4)
          case Nil
          with s1 s2 s3 s4 show ?thesis by simp
        next
          case (Cons e s5)
          with s1 s2 s3 s4 show ?thesis by simp
        qed
      qed
    qed
  qed
qed

lemma str_lower_true:
  "str_lower s = ''true'' \<longleftrightarrow>
     (\<exists>a b c d. s = [a, b, c, d] \<and> a \<in> {CHR ''t'', CHR ''T''} \<and> b \<in> {CHR ''r'', CHR ''R''}
        \<and> c \<in> {CHR ''u'', CHR ''U''} \<and> d \<in> {CHR ''e'', CHR ''E''})"
  unfolding str_lower_def map_eq_4 lower_char_true_letters by simp

text \<open>
  Claim C7, amended. The Boolean conversion never fails and yields true exactly for the
  four-letter texts that spell \<open>true\<close> in any mix of upper and lower case; nothing is
  trimmed, so every other text, padded spellings included, yields false.
\<close>

theorem convert_bool_case_insensitive_no_trim:
  "convert_value PyBool s =
     Inr (VBool (\<exists>a b c d. s = [a, b, c, d] \<and> a \<in> {CHR ''t'', CHR ''T''} \<and> b \<in> {CHR ''r'', CHR ''R''}
                   \<and> c \<in> {CHR ''u'', CHR ''U''} \<and> d \<in> {CHR ''e'', CHR ''E''}))
   \<and> convert_values [(column_name, PyBool)] [s] =
     Inr [VBool (\<exists>a b c d. s = [a, b, c, d] \<and> a \<in> {CHR ''t'', CHR ''T''} \<and> b \<in> {CHR ''r'', CHR ''R''}
                   \<and> c \<in> {CHR ''u'', CHR ''U''} \<and> d \<in> {CHR ''e'', CHR ''E''})]"
proof -
  have "convert_value PyBool s = Inr (VBool (str_lower s = ''true''))"
    by (simp add: convert_value_def)
  moreover have "convert_values [(column_name, PyBool)] [s] = Inr [VBool (str_lower s = ''true'')]"
    by (simp add: convert_values_def convert_value_def)
  ultimately show ?thesis by (simp only: str_lower_true)
qed

lemma lower_true_padded: "str_lower '' true '' \<noteq> ''true''"
  by (simp add: str_lower_def)

lemma trim_true_padded: "spec_trim '' true '' = ''true''"
  by (simp add: spec_trim_def is_space_def)

lemma lower_true_plain: "str_lower ''true'' = ''true''"
  by (simp add: str_lower_def lower_char_def)

text \<open>
  Claim C7 as stated fails: the text \<open>true\<close> with a space on each side equals \<open>true\<close> after
  trimming, and the conversion yields false.
\<close>

theorem convert_bool_does_not_trim:
  "convert_values [(''IsStudent'', PyBool)] ['' true ''] = Inr [VBool False]
   \<and> spec_bool_of_text '' true ''"
  by (simp add: convert_values_def convert_value_def lower_true_padded
      spec_bool_of_text_def trim_true_padded lower_true_plain)

subsection \<open>Integer literals\<close>



























subsection \<open>Tables on which the invariant is broken\<close>

text \<open>
  Claim C4 as stated fails: on the table reached from the duplicated schema by two equal
  \<open>add_row\<close> calls and \<open>delete_column\<close>, the rows lack the key \<open>Age\<close>; \<open>remove_duplicates\<close>
  raises \<open>KeyError\<close> and both rows stay.
\<close>

theorem remove_duplicates_raises_on_missing_key:
  "run_ops (DynamicTable_init twice_age)
     [AddRow [VInt 1, VInt 2], AddRow [VInt 1, VInt 2], DeleteColumn ''Age''] = keyless_rows_table
   \<and> remove_duplicates keyless_rows_table = (Raised (KeyError ''Age''), keyless_rows_table)"
  by (simp add: keyless_rows_table_def twice_age_def DynamicTable_init_def add_row_def
      delete_column_def column_names_def dict_of_pairs_def dict_setitem_def dict_keys_def
      remove_duplicates_def)

text \<open>
  Claim C9 as stated fails: on the table reached from the duplicated schema, whose schema
  is empty while its second row still holds \<open>Age\<close>, \<open>add_column\<close> overwrites that value with
  \<open>None\<close> and \<open>delete_column\<close> removes the key; both calls return, and the 5 is lost.
\<close>

theorem add_then_delete_column_loses_value:
  "run_ops (DynamicTable_init twice_age)
     [AddRow [VInt 1, VInt 2], DeleteColumn ''Age'', AddRow [VInt 5], DeleteColumn ''Age'']
     = orphan_key_table
   \<and> ''Age'' \<notin> set (column_names orphan_key_table)
   \<and> add_column orphan_key_table ''Age'' PyInt
     = (Returned, \<lparr>column_info = [(''Age'', PyInt)], rows = [[(''Age'', VNone)], [(''Age'', VNone)]]\<rparr>)
   \<and> delete_column (snd (add_column orphan_key_table ''Age'' PyInt)) ''Age''
     = (Returned, \<lparr>column_info = [], rows = [[], []]\<rparr>)"
  by (simp add: orphan_key_table_def twice_age_def DynamicTable_init_def add_row_def add_column_def
      delete_column_def column_names_def dict_of_pairs_def dict_setitem_def dict_keys_def)

end
